theory Spec2Isabelle
  imports Complex_Main "HOL-Library.Log_Nat"
begin

section \<open>JavaScript numbers\<close>

text \<open>
  Positions and angles are JavaScript numbers, that is IEEE-754 binary64 values. A finite
  value is represented by the rational it denotes; the sign of zero is not represented
  (it is lost when a message is serialised). The result of an arithmetic operation is
  the exact result rounded to the nearest representable value, ties to the even
  significand, written out in \<open>to_double\<close>: 53 significant bits, exponents from
  \<open>-1022\<close> to \<open>1023\<close>, gradual underflow below and overflow to an infinity above.
\<close>

datatype jsnum = NaN | PosInf | NegInf | Fin rat

text \<open>\<open>ilog2 q\<close> is the exponent \<open>e\<close> with \<open>2 powi e \<le> q < 2 powi (e + 1)\<close>, for \<open>0 < q\<close>.\<close>

definition ilog2 :: "rat \<Rightarrow> int" where
  "ilog2 q = (if 1 \<le> q then bitlen \<lfloor>q\<rfloor> - 1 else - bitlen (\<lceil>1 / q\<rceil> - 1))"

definition round_half_even :: "rat \<Rightarrow> int" where
  "round_half_even y =
     (let f = \<lfloor>y\<rfloor>; d = y - of_int f
      in if d < 1 / 2 then f
         else if 1 / 2 < d then f + 1
         else if even f then f else f + 1)"

definition to_double :: "rat \<Rightarrow> jsnum" where
  "to_double q =
     (if q = 0 then Fin 0
      else
        let e = max (ilog2 \<bar>q\<bar>) (- 1022);
            u = 2 powi (e - 52);
            r = of_int (round_half_even (q / u)) * u
        in if 2 powi 1024 \<le> \<bar>r\<bar> then (if 0 < q then PosInf else NegInf) else Fin r)"

text \<open>\<open>v * 100\<close> and \<open>v / 100\<close>, the two arithmetic operations of the source.\<close>

definition times100 :: "jsnum \<Rightarrow> jsnum" where
  "times100 v = (case v of Fin q \<Rightarrow> to_double (q * 100) | _ \<Rightarrow> v)"

definition div100 :: "jsnum \<Rightarrow> jsnum" where
  "div100 v = (case v of Fin q \<Rightarrow> to_double (q / 100) | _ \<Rightarrow> v)"

text \<open>
  \<open>Math.round\<close>: the nearest integer, the upper one of two equally near; \<open>NaN\<close> and the
  infinities are returned as they are.
\<close>

definition Math_round :: "jsnum \<Rightarrow> jsnum" where
  "Math_round v = (case v of Fin q \<Rightarrow> Fin (of_int \<lfloor>q + 1 / 2\<rfloor>) | _ \<Rightarrow> v)"


section \<open>Bodies\<close>

text \<open>
  A body as the physics library holds it, with the properties the server sets or reads.
  A property a body does not have (\<open>undefined\<close>) is \<open>None\<close>: the terrain has no
  \<open>shape\<close>. The field \<open>ident\<close> is the property \<open>id\<close>; \<open>pos_x\<close> and \<open>pos_y\<close> are
  \<open>position.x\<close> and \<open>position.y\<close>. Mass, friction and vertices belong to the physics
  library alone and are left out.
\<close>

record vec =
  pos_x :: jsnum
  pos_y :: jsnum

record body =
  ident :: nat
  shape :: "string option"
  position :: vec
  angle :: jsnum
  isSleeping :: bool
  isStatic :: bool
  isSensor :: bool
  nickname :: "string option"
  health :: "int option"
  tokens :: "int option"
  sword :: "int option"
  shield :: "int option"
  points :: "int option"

text \<open>A JavaScript value that is either one object or an array of objects.\<close>

datatype 'a payload = One 'a | Many "'a list"

text \<open>\<open>[].concat(object)\<close>: an array is copied, anything else becomes a one-element array.\<close>

fun concat_arr :: "'a payload \<Rightarrow> 'a list" where
  "concat_arr (One b) = [b]"
| "concat_arr (Many bs) = bs"


section \<open>Render info\<close>

record bodyInfo =
  info_id :: nat
  info_shape :: "string option"
  info_position :: vec
  info_angle :: "jsnum option"

definition renderBody :: "body \<Rightarrow> bodyInfo" where
  "renderBody b =
     (let bodyInfo = \<lparr>info_id = ident b, info_shape = shape b,
                       info_position = position b, info_angle = None\<rparr>
      in if shape b = Some ''player'' then bodyInfo\<lparr>info_angle := Some (angle b)\<rparr>
         else bodyInfo)"

definition renderInfo :: "body payload \<Rightarrow> bodyInfo list" where
  "renderInfo object = map renderBody (concat_arr object)"


section \<open>Messages\<close>

type_synonym sock = string

record update =
  upd_i :: nat
  upd_x :: jsnum
  upd_y :: jsnum
  upd_r :: jsnum

text \<open>
  What the server sends, in the order it sends it: \<open>io.emit('add', _)\<close>,
  \<open>io.emit('remove', _)\<close>, \<open>io.volatile.emit('update', _)\<close>, \<open>socket.emit('add', _)\<close> on
  one socket, and the acknowledgement \<open>sendId(_)\<close> of a join.
\<close>

datatype msg =
    Io_emit_add "bodyInfo payload"
  | Io_emit_remove "nat payload"
  | Io_volatile_emit_update "update list"
  | Socket_emit_add sock "bodyInfo payload"
  | SendId sock nat

definition afterAdd :: "body payload \<Rightarrow> msg" where
  "afterAdd object =
     (let info = renderInfo object
      in Io_emit_add (if length info = 1 then One (info ! 0) else Many info))"

definition afterRemove :: "body payload \<Rightarrow> msg" where
  "afterRemove object =
     Io_emit_remove (case object of Many bs \<Rightarrow> Many (map ident bs) | One b \<Rightarrow> One (ident b))"


section \<open>The world\<close>

text \<open>
  The global variables of the server and what it has sent so far. \<open>world_bodies\<close> is
  \<open>world.bodies\<close>, the bodies that are added to the world itself (the known bodies);
  \<open>static_bodies\<close> and \<open>dynamic_bodies\<close> are \<open>static.bodies\<close> and \<open>dynamic.bodies\<close>.
  \<open>nextId\<close> is the counter of the physics library from which every body and every
  composite takes its id. \<open>connected\<close> holds the sockets whose handlers are registered,
  and \<open>player sk\<close> is the variable \<open>player\<close> of the connection of socket \<open>sk\<close>
  (\<open>None\<close> while it is undefined). The variable refers to a body; only the id of that
  body is ever read, and a body is identified by its id.
\<close>

record state =
  nextId :: nat
  world_bodies :: "body list"
  static_bodies :: "body list"
  dynamic_bodies :: "body list"
  socketIds :: "nat \<rightharpoonup> sock"
  connected :: "sock set"
  player :: "sock \<Rightarrow> body option"
  sent :: "msg list"

definition emit :: "msg \<Rightarrow> state \<Rightarrow> state" where
  "emit m s = s\<lparr>sent := sent s @ [m]\<rparr>"

text \<open>
  The shape definitions \<open>data/shapes.json\<close> are not part of the sources. What they
  decide here is how many ids the library takes for the parts of a body made from a
  path, before it takes the id of the body itself; that number is a parameter.
\<close>

type_synonym shapes = "string \<Rightarrow> nat"

definition fresh_id :: "shapes \<Rightarrow> string \<Rightarrow> state \<Rightarrow> nat" where
  "fresh_id sh name s = nextId s + sh name"

definition took_id :: "nat \<Rightarrow> state \<Rightarrow> state" where
  "took_id i s = s\<lparr>nextId := Suc i\<rparr>"

datatype composite = World | Static | Dynamic

text \<open>The removal of one body from an array: the first position that holds it, if any.\<close>

fun removeBody :: "body \<Rightarrow> body list \<Rightarrow> body list" where
  "removeBody b [] = []"
| "removeBody b (c # cs) = (if ident c = ident b then cs else c # removeBody b cs)"

text \<open>
  \<open>Composite.add\<close> and \<open>Composite.remove\<close> of the library, with the listeners that
  \<open>createWorld\<close> attaches: \<open>afterAdd\<close> and \<open>afterRemove\<close> on \<open>static\<close> and \<open>dynamic\<close>,
  none on the world.
\<close>

definition Composite_add :: "composite \<Rightarrow> body payload \<Rightarrow> state \<Rightarrow> state" where
  "Composite_add c object s =
     (case c of
        World \<Rightarrow> s\<lparr>world_bodies := world_bodies s @ concat_arr object\<rparr>
      | Static \<Rightarrow> emit (afterAdd object) (s\<lparr>static_bodies := static_bodies s @ concat_arr object\<rparr>)
      | Dynamic \<Rightarrow> emit (afterAdd object) (s\<lparr>dynamic_bodies := dynamic_bodies s @ concat_arr object\<rparr>))"

definition Composite_remove :: "composite \<Rightarrow> body payload \<Rightarrow> state \<Rightarrow> state" where
  "Composite_remove c object s =
     (case c of
        World \<Rightarrow> s\<lparr>world_bodies := foldl (\<lambda>bs b. removeBody b bs) (world_bodies s) (concat_arr object)\<rparr>
      | Static \<Rightarrow> emit (afterRemove object)
          (s\<lparr>static_bodies := foldl (\<lambda>bs b. removeBody b bs) (static_bodies s) (concat_arr object)\<rparr>)
      | Dynamic \<Rightarrow> emit (afterRemove object)
          (s\<lparr>dynamic_bodies := foldl (\<lambda>bs b. removeBody b bs) (dynamic_bodies s) (concat_arr object)\<rparr>))"

definition new_body :: "nat \<Rightarrow> jsnum \<Rightarrow> jsnum \<Rightarrow> body" where
  "new_body i px py =
     \<lparr>ident = i, shape = None, position = \<lparr>pos_x = px, pos_y = py\<rparr>, angle = Fin 0,
      isSleeping = False, isStatic = False, isSensor = False, nickname = None,
      health = None, tokens = None, sword = None, shield = None, points = None\<rparr>"

definition terrain :: "nat \<Rightarrow> body" where
  "terrain i = (new_body i (Fin 0) (Fin 0))\<lparr>isStatic := True\<rparr>"

definition createBag :: "nat \<Rightarrow> jsnum \<Rightarrow> jsnum \<Rightarrow> int \<Rightarrow> int \<Rightarrow> int \<Rightarrow> body" where
  "createBag i px py pts sw shl =
     (new_body i px py)\<lparr>isStatic := True, isSensor := True, shape := Some ''bag'',
        points := Some pts, sword := Some sw, shield := Some shl\<rparr>"

definition createPlayer :: "nat \<Rightarrow> string \<Rightarrow> body" where
  "createPlayer i nick =
     (new_body i (Fin 0) (Fin (- 300)))\<lparr>shape := Some ''player'', nickname := Some nick,
        health := Some 100, tokens := Some 100, sword := Some 0, shield := Some 0\<rparr>"

text \<open>
  \<open>createWorld\<close>, from the value \<open>n0\<close> of the id counter when it is called: the world
  composite, the terrain, the composites \<open>static\<close> and \<open>dynamic\<close> take their ids in this
  order. \<open>manageConnections\<close> then sets \<open>socketIds\<close> to an empty map.
\<close>

definition createWorld :: "shapes \<Rightarrow> nat \<Rightarrow> state" where
  "createWorld sh n0 =
     (let s0 = \<lparr>nextId = Suc n0, world_bodies = [], static_bodies = [], dynamic_bodies = [],
                socketIds = Map.empty, connected = {}, player = (\<lambda>sk. None), sent = []\<rparr>;
          i = fresh_id sh ''terrain'' s0;
          s1 = Composite_add World (One (terrain i)) (took_id i s0);
          s2 = took_id (nextId s1) s1;
          s3 = took_id (nextId s2) s2
      in s3)"

text \<open>
  The timer that spawns a bag; the five rounded random numbers are its parameters.
\<close>

definition spawn :: "shapes \<Rightarrow> jsnum \<Rightarrow> jsnum \<Rightarrow> int \<Rightarrow> int \<Rightarrow> int \<Rightarrow> state \<Rightarrow> state" where
  "spawn sh px py pts sw shl s =
     (let i = fresh_id sh ''bag'' s;
          bag = createBag i px py pts sw shl
      in Composite_add Static (One bag) (took_id i s))"

text \<open>
  The handler of \<open>join\<close> on socket \<open>sk\<close>. The client is taken to pass the
  acknowledgement function \<open>sendId\<close>.
\<close>

definition join :: "shapes \<Rightarrow> sock \<Rightarrow> string \<Rightarrow> state \<Rightarrow> state" where
  "join sh sk nick s =
     (let i = fresh_id sh ''player'' s;
          p = createPlayer i nick;
          s1 = (took_id i s)\<lparr>player := (player s)(sk := Some p)\<rparr>;
          s2 = s1\<lparr>socketIds := (socketIds s1)(ident p \<mapsto> sk)\<rparr>;
          s3 = emit (SendId sk (ident p)) s2;
          info = renderInfo (Many (static_bodies s3 @ dynamic_bodies s3));
          s4 = (if length info > 0 then emit (Socket_emit_add sk (Many info)) s3 else s3)
      in Composite_add Dynamic (One p) s4)"

definition pop :: "body \<Rightarrow> state \<Rightarrow> state" where
  "pop entity s = Composite_remove Dynamic (One entity) s"

text \<open>The handler of \<open>disconnect\<close> on socket \<open>sk\<close>.\<close>

definition disconnect :: "sock \<Rightarrow> state \<Rightarrow> state" where
  "disconnect sk s =
     (case player s sk of
        None \<Rightarrow> s
      | Some p \<Rightarrow>
          (let s1 = pop p s
           in s1\<lparr>socketIds := (socketIds s1)(ident p := None)\<rparr>))"

text \<open>The timer of \<open>emitRegularUpdates\<close>.\<close>

definition flatMap :: "('a \<Rightarrow> 'b list) \<Rightarrow> 'a list \<Rightarrow> 'b list" where
  "flatMap f xs = concat (map f xs)"

definition gamestate :: "body list \<Rightarrow> update list" where
  "gamestate bs =
     flatMap (\<lambda>b. if isSleeping b then []
                   else [\<lparr>upd_i = ident b,
                          upd_x = Math_round (pos_x (position b)),
                          upd_y = Math_round (pos_y (position b)),
                          upd_r = div100 (Math_round (times100 (angle b)))\<rparr>]) bs"

definition emitRegularUpdates :: "state \<Rightarrow> state" where
  "emitRegularUpdates s = emit (Io_volatile_emit_update (gamestate (dynamic_bodies s))) s"

text \<open>
  One step of the physics engine: it moves the dynamic bodies and puts them to sleep or
  wakes them; what it does to a body is a parameter.
\<close>

definition moved :: "(body \<Rightarrow> vec \<times> jsnum \<times> bool) \<Rightarrow> body \<Rightarrow> body" where
  "moved mv b =
     (case mv b of (p, a, sl) \<Rightarrow> b\<lparr>position := p, angle := a, isSleeping := sl\<rparr>)"

definition engine_update :: "(body \<Rightarrow> vec \<times> jsnum \<times> bool) \<Rightarrow> state \<Rightarrow> state" where
  "engine_update mv s = s\<lparr>dynamic_bodies := map (moved mv) (dynamic_bodies s)\<rparr>"


section \<open>Runs of the server\<close>

text \<open>
  What happens to the server after \<open>createWorld\<close>: a client connects (its socket gets
  the two handlers and an undefined \<open>player\<close>), a connected client joins or
  disconnects (after which its socket has no handlers any more), a bag is spawned, the
  regular update is sent, the physics engine makes a step. Socket ids are unique, so a
  connection on a connected socket does not occur and changes nothing here; a join or
  disconnect on a socket that is not connected has no handler to run.
\<close>

datatype event =
    Connection sock
  | Join sock string
  | Disconnect sock
  | Spawn jsnum jsnum int int int
  | Tick
  | Engine "body \<Rightarrow> vec \<times> jsnum \<times> bool"

fun step :: "shapes \<Rightarrow> state \<Rightarrow> event \<Rightarrow> state" where
  "step sh s (Connection sk) =
     (if sk \<in> connected s then s
      else s\<lparr>connected := insert sk (connected s), player := (player s)(sk := None)\<rparr>)"
| "step sh s (Join sk nick) = (if sk \<in> connected s then join sh sk nick s else s)"
| "step sh s (Disconnect sk) =
     (if sk \<in> connected s then (disconnect sk s)\<lparr>connected := connected s - {sk}\<rparr> else s)"
| "step sh s (Spawn px py pts sw shl) = spawn sh px py pts sw shl s"
| "step sh s Tick = emitRegularUpdates s"
| "step sh s (Engine mv) = engine_update mv s"

definition run :: "shapes \<Rightarrow> nat \<Rightarrow> event list \<Rightarrow> state" where
  "run sh n0 evs = foldl (step sh) (createWorld sh n0) evs"


section \<open>Auxiliary notions\<close>

text \<open>The ids that a message of kind \<open>add\<close> or \<open>remove\<close> names.\<close>

fun msg_ids :: "msg \<Rightarrow> nat set" where
  "msg_ids (Io_emit_add p) = info_id ` set (concat_arr p)"
| "msg_ids (Io_emit_remove p) = set (concat_arr p)"
| "msg_ids (Socket_emit_add sk p) = info_id ` set (concat_arr p)"
| "msg_ids (Io_volatile_emit_update us) = {}"
| "msg_ids (SendId sk i) = {}"

text \<open>The bodies of the three collections, and what holds of them in every run.\<close>

definition all_bodies :: "state \<Rightarrow> body list" where
  "all_bodies s = world_bodies s @ static_bodies s @ dynamic_bodies s"

definition inv :: "state \<Rightarrow> bool" where
  "inv s \<longleftrightarrow>
     distinct (map ident (all_bodies s)) \<and>
     (\<forall>b \<in> set (all_bodies s). ident b < nextId s) \<and>
     (\<forall>sk \<in> connected s. \<forall>p. player s sk = Some p \<longrightarrow> ident p \<in> ident ` set (dynamic_bodies s)) \<and>
     (\<forall>k \<in> connected s. \<forall>k' \<in> connected s. \<forall>p q. player s k = Some p \<longrightarrow>
        player s k' = Some q \<longrightarrow> ident p = ident q \<longrightarrow> k = k') \<and>
     (\<forall>m \<in> set (sent s). msg_ids m \<inter> ident ` set (world_bodies s) = {})"


text \<open>The payloads of the \<open>add\<close> messages sent to one socket alone.\<close>

fun private_adds :: "sock \<Rightarrow> msg list \<Rightarrow> bodyInfo payload list" where
  "private_adds sk [] = []"
| "private_adds sk (Socket_emit_add k p # ms) =
     (if k = sk then p # private_adds sk ms else private_adds sk ms)"
| "private_adds sk (m # ms) = private_adds sk ms"



section \<open>The operations, variable by variable\<close>

lemma info_id_renderBody [simp]: "info_id (renderBody b) = ident b"
  by (simp add: renderBody_def Let_def)

lemma msg_ids_afterAdd [simp]: "msg_ids (afterAdd object) = ident ` set (concat_arr object)"
  by (cases "concat_arr object" rule: list.exhaust)
     (auto simp: afterAdd_def renderInfo_def Let_def image_image length_Suc_conv)

lemma msg_ids_afterRemove [simp]: "msg_ids (afterRemove object) = ident ` set (concat_arr object)"
  by (cases object) (simp_all add: afterRemove_def)

lemma ids_removeBody:
  "distinct (map ident bs) \<Longrightarrow> map ident (removeBody b bs) = removeAll (ident b) (map ident bs)"
  by (induction bs) (auto simp: image_iff)

lemma set_removeBody: "set (removeBody b bs) \<subseteq> set bs"
  by (induction bs) auto

text \<open>What each operation does to each variable.\<close>

lemma spawn_fields:
  "nextId (spawn sh px py pts sw shl s) = Suc (nextId s + sh ''bag'')"
  "world_bodies (spawn sh px py pts sw shl s) = world_bodies s"
  "static_bodies (spawn sh px py pts sw shl s) =
     static_bodies s @ [createBag (nextId s + sh ''bag'') px py pts sw shl]"
  "dynamic_bodies (spawn sh px py pts sw shl s) = dynamic_bodies s"
  "socketIds (spawn sh px py pts sw shl s) = socketIds s"
  "connected (spawn sh px py pts sw shl s) = connected s"
  "player (spawn sh px py pts sw shl s) = player s"
  "sent (spawn sh px py pts sw shl s) =
     sent s @ [Io_emit_add (One (renderBody (createBag (nextId s + sh ''bag'') px py pts sw shl)))]"
  by (simp_all add: spawn_def Let_def Composite_add_def took_id_def fresh_id_def emit_def
      afterAdd_def renderInfo_def)

lemma join_fields:
  "nextId (join sh sk nick s) = Suc (nextId s + sh ''player'')"
  "world_bodies (join sh sk nick s) = world_bodies s"
  "static_bodies (join sh sk nick s) = static_bodies s"
  "dynamic_bodies (join sh sk nick s) =
     dynamic_bodies s @ [createPlayer (nextId s + sh ''player'') nick]"
  "socketIds (join sh sk nick s) = (socketIds s)(nextId s + sh ''player'' \<mapsto> sk)"
  "connected (join sh sk nick s) = connected s"
  "player (join sh sk nick s) = (player s)(sk := Some (createPlayer (nextId s + sh ''player'') nick))"
  "sent (join sh sk nick s) =
     sent s @ [SendId sk (nextId s + sh ''player'')] @
     (if static_bodies s @ dynamic_bodies s = [] then []
      else [Socket_emit_add sk (Many (map renderBody (static_bodies s @ dynamic_bodies s)))]) @
     [Io_emit_add (One (renderBody (createPlayer (nextId s + sh ''player'') nick)))]"
  by (simp_all add: join_def Let_def Composite_add_def took_id_def fresh_id_def emit_def
      afterAdd_def renderInfo_def createPlayer_def new_body_def)

lemma disconnect_fields:
  "nextId (disconnect sk s) = nextId s"
  "world_bodies (disconnect sk s) = world_bodies s"
  "static_bodies (disconnect sk s) = static_bodies s"
  "dynamic_bodies (disconnect sk s) =
     (case player s sk of None \<Rightarrow> dynamic_bodies s | Some p \<Rightarrow> removeBody p (dynamic_bodies s))"
  "socketIds (disconnect sk s) =
     (case player s sk of None \<Rightarrow> socketIds s | Some p \<Rightarrow> (socketIds s)(ident p := None))"
  "connected (disconnect sk s) = connected s"
  "player (disconnect sk s) = player s"
  "sent (disconnect sk s) =
     (case player s sk of None \<Rightarrow> sent s | Some p \<Rightarrow> sent s @ [Io_emit_remove (One (ident p))])"
  by (simp_all add: disconnect_def pop_def Let_def Composite_remove_def emit_def
      afterRemove_def split: option.splits)

lemma tick_fields:
  "nextId (emitRegularUpdates s) = nextId s"
  "world_bodies (emitRegularUpdates s) = world_bodies s"
  "static_bodies (emitRegularUpdates s) = static_bodies s"
  "dynamic_bodies (emitRegularUpdates s) = dynamic_bodies s"
  "socketIds (emitRegularUpdates s) = socketIds s"
  "connected (emitRegularUpdates s) = connected s"
  "player (emitRegularUpdates s) = player s"
  "sent (emitRegularUpdates s) = sent s @ [Io_volatile_emit_update (gamestate (dynamic_bodies s))]"
  by (simp_all add: emitRegularUpdates_def emit_def)

lemma ident_moved [simp]: "ident (moved mv b) = ident b"
  by (simp add: moved_def split: prod.splits)

lemma engine_fields:
  "nextId (engine_update mv s) = nextId s"
  "world_bodies (engine_update mv s) = world_bodies s"
  "static_bodies (engine_update mv s) = static_bodies s"
  "dynamic_bodies (engine_update mv s) = map (moved mv) (dynamic_bodies s)"
  "socketIds (engine_update mv s) = socketIds s"
  "connected (engine_update mv s) = connected s"
  "player (engine_update mv s) = player s"
  "sent (engine_update mv s) = sent s"
  by (simp_all add: engine_update_def)

lemma ident_createBag [simp]: "ident (createBag i px py pts sw shl) = i"
  by (simp add: createBag_def new_body_def)

lemma ident_createPlayer [simp]: "ident (createPlayer i nick) = i"
  by (simp add: createPlayer_def new_body_def)


lemma invD:
  assumes "inv s"
  shows "distinct (map ident (all_bodies s))"
    and "\<And>b. b \<in> set (all_bodies s) \<Longrightarrow> ident b < nextId s"
    and "\<And>k p. k \<in> connected s \<Longrightarrow> player s k = Some p \<Longrightarrow>
           ident p \<in> ident ` set (dynamic_bodies s)"
    and "\<And>k k' p q. k \<in> connected s \<Longrightarrow> k' \<in> connected s \<Longrightarrow> player s k = Some p \<Longrightarrow>
           player s k' = Some q \<Longrightarrow> ident p = ident q \<Longrightarrow> k = k'"
    and "\<And>m. m \<in> set (sent s) \<Longrightarrow> msg_ids m \<inter> ident ` set (world_bodies s) = {}"
  using assms unfolding inv_def by blast+

lemma inv_known_apart:
  assumes "inv s" "a \<in> set (world_bodies s)" "b \<in> set (static_bodies s @ dynamic_bodies s)"
  shows "ident a \<noteq> ident b"
  using invD(1)[OF assms(1)] assms(2,3) by (auto simp: all_bodies_def)

lemma inv_createWorld: "inv (createWorld sh n0)"
  by (simp add: inv_def all_bodies_def createWorld_def Let_def Composite_add_def took_id_def
      fresh_id_def terrain_def new_body_def)

lemma inv_spawn:
  assumes "inv s" shows "inv (spawn sh px py pts sw shl s)"
proof -
  let ?t = "spawn sh px py pts sw shl s"
  note f = invD(2)[OF assms]
  then have new: "nextId s + sh ''bag'' \<notin> ident ` set (all_bodies s)"
    by fastforce
  have "distinct (map ident (all_bodies ?t))"
    using invD(1)[OF assms] new by (auto simp: all_bodies_def spawn_fields)
  moreover have "\<forall>b \<in> set (all_bodies ?t). ident b < nextId ?t"
    using f by (fastforce simp: all_bodies_def spawn_fields)
  moreover have "\<forall>k \<in> connected ?t. \<forall>p. player ?t k = Some p \<longrightarrow>
      ident p \<in> ident ` set (dynamic_bodies ?t)"
    using invD(3)[OF assms] by (simp add: spawn_fields)
  moreover have "\<forall>k \<in> connected ?t. \<forall>k' \<in> connected ?t. \<forall>p q. player ?t k = Some p \<longrightarrow>
      player ?t k' = Some q \<longrightarrow> ident p = ident q \<longrightarrow> k = k'"
    using invD(4)[OF assms] by (simp add: spawn_fields)
  moreover have "\<forall>m \<in> set (sent ?t). msg_ids m \<inter> ident ` set (world_bodies ?t) = {}"
    using invD(5)[OF assms] new by (auto simp: all_bodies_def spawn_fields)
  ultimately show ?thesis unfolding inv_def by blast
qed

lemma inv_join:
  assumes "inv s" shows "inv (join sh sk nick s)"
proof -
  let ?t = "join sh sk nick s"
  let ?i = "nextId s + sh ''player''"
  note f = invD(2)[OF assms]
  then have new: "?i \<notin> ident ` set (all_bodies s)"
    by fastforce
  have bound: "ident p \<noteq> ?i" if "k \<in> connected s" "player s k = Some p" for k p
    using invD(3)[OF assms that] new by (auto simp: all_bodies_def)
  have "distinct (map ident (all_bodies ?t))"
    using invD(1)[OF assms] new by (auto simp: all_bodies_def join_fields)
  moreover have "\<forall>b \<in> set (all_bodies ?t). ident b < nextId ?t"
    using f by (fastforce simp: all_bodies_def join_fields)
  moreover have "\<forall>k \<in> connected ?t. \<forall>p. player ?t k = Some p \<longrightarrow>
      ident p \<in> ident ` set (dynamic_bodies ?t)"
    using invD(3)[OF assms] by (auto simp: join_fields)
  moreover have "\<forall>k \<in> connected ?t. \<forall>k' \<in> connected ?t. \<forall>p q. player ?t k = Some p \<longrightarrow>
      player ?t k' = Some q \<longrightarrow> ident p = ident q \<longrightarrow> k = k'"
  proof (intro ballI allI impI)
    fix k k' p q
    assume k: "k \<in> connected ?t" "k' \<in> connected ?t"
      and p: "player ?t k = Some p" "player ?t k' = Some q" and e: "ident p = ident q"
    show "k = k'"
    proof (cases "k = sk")
      case True
      then have "ident p = ?i" using p(1) by (auto simp: join_fields)
      then show ?thesis using bound[of k' q] k p e True by (auto simp: join_fields split: if_splits)
    next
      case False
      then have pk: "player s k = Some p" "k \<in> connected s" using p k by (simp_all add: join_fields)
      show ?thesis
      proof (cases "k' = sk")
        case True
        then have "ident q = ?i" using p(2) by (auto simp: join_fields)
        then show ?thesis using bound[OF pk(2,1)] e by simp
      next
        case False
        then show ?thesis using invD(4)[OF assms pk(2) _ pk(1) _ e, of k'] p k
          by (simp add: join_fields)
      qed
    qed
  qed
  moreover have "\<forall>m \<in> set (sent ?t). msg_ids m \<inter> ident ` set (world_bodies ?t) = {}"
  proof
    fix m assume "m \<in> set (sent ?t)"
    then consider "m \<in> set (sent s)" | "m = SendId sk ?i"
      | "m = Socket_emit_add sk (Many (map renderBody (static_bodies s @ dynamic_bodies s)))"
      | "m = Io_emit_add (One (renderBody (createPlayer ?i nick)))"
      by (auto simp: join_fields split: if_splits)
    then show "msg_ids m \<inter> ident ` set (world_bodies ?t) = {}"
    proof cases
      case 1 then show ?thesis using invD(5)[OF assms] by (simp add: join_fields)
    next
      case 2 then show ?thesis by simp
    next
      case 3 then show ?thesis
        using inv_known_apart[OF assms] by (fastforce simp: join_fields image_image)
    next
      case 4 then show ?thesis using new by (auto simp: join_fields all_bodies_def)
    qed
  qed
  ultimately show ?thesis unfolding inv_def by blast
qed

lemma inv_disconnect:
  assumes "inv s" "sk \<in> connected s"
  shows "inv ((disconnect sk s)\<lparr>connected := connected s - {sk}\<rparr>)"
proof (cases "player s sk")
  case None
  then have "disconnect sk s = s" by (simp add: disconnect_def)
  then show ?thesis using assms(1) unfolding inv_def all_bodies_def by auto
next
  case (Some p)
  let ?t = "(disconnect sk s)\<lparr>connected := connected s - {sk}\<rparr>"
  have d: "distinct (map ident (all_bodies s))" by (rule invD(1)[OF assms(1)])
  then have dd: "distinct (map ident (dynamic_bodies s))" by (simp add: all_bodies_def)
  have pin: "ident p \<in> ident ` set (dynamic_bodies s)"
    by (rule invD(3)[OF assms Some])
  have sub: "set (removeBody p (dynamic_bodies s)) \<subseteq> set (dynamic_bodies s)"
    by (rule set_removeBody)
  have ids: "ident ` set (removeBody p (dynamic_bodies s)) = ident ` set (dynamic_bodies s) - {ident p}"
    using ids_removeBody[OF dd, of p] by (metis list.set_map set_removeAll)
  have "distinct (map ident (all_bodies ?t))"
    using d sub Some by (auto simp: all_bodies_def disconnect_fields ids_removeBody distinct_removeAll)
  moreover have "\<forall>b \<in> set (all_bodies ?t). ident b < nextId ?t"
    using invD(2)[OF assms(1)] sub Some by (auto simp: all_bodies_def disconnect_fields)
  moreover have "\<forall>k \<in> connected ?t. \<forall>q. player ?t k = Some q \<longrightarrow>
      ident q \<in> ident ` set (dynamic_bodies ?t)"
    using invD(3)[OF assms(1)] invD(4)[OF assms(1) _ assms(2) _ Some] Some
    by (auto simp: disconnect_fields ids)
  moreover have "\<forall>k \<in> connected ?t. \<forall>k' \<in> connected ?t. \<forall>p q. player ?t k = Some p \<longrightarrow>
      player ?t k' = Some q \<longrightarrow> ident p = ident q \<longrightarrow> k = k'"
    using invD(4)[OF assms(1)] by (simp add: disconnect_fields)
  moreover have "\<forall>m \<in> set (sent ?t). msg_ids m \<inter> ident ` set (world_bodies ?t) = {}"
    using invD(5)[OF assms(1)] pin inv_known_apart[OF assms(1)] Some
    by (fastforce simp: disconnect_fields)
  ultimately show ?thesis unfolding inv_def by blast
qed

lemma inv_connection:
  assumes "inv s" "sk \<notin> connected s"
  shows "inv (s\<lparr>connected := insert sk (connected s), player := (player s)(sk := None)\<rparr>)"
  using assms unfolding inv_def all_bodies_def by auto

lemma inv_tick: "inv s \<Longrightarrow> inv (emitRegularUpdates s)"
  unfolding inv_def all_bodies_def by (auto simp: tick_fields)

lemma inv_engine: "inv s \<Longrightarrow> inv (engine_update mv s)"
  unfolding inv_def all_bodies_def by (auto simp: engine_fields comp_def image_image)

lemma inv_step: "inv s \<Longrightarrow> inv (step sh s ev)"
  by (cases ev) (simp_all add: inv_join inv_disconnect inv_connection inv_spawn inv_tick inv_engine)

lemma inv_run: "inv (run sh n0 evs)"
  unfolding run_def by (induction evs rule: rev_induct) (simp_all add: inv_createWorld inv_step)

lemma world_bodies_step: "world_bodies (step sh s ev) = world_bodies s"
  by (cases ev) (simp_all add: join_fields disconnect_fields spawn_fields tick_fields engine_fields)

lemma createWorld_fields:
  "nextId (createWorld sh n0) = Suc (Suc (Suc (Suc n0 + sh ''terrain'')))"
  "world_bodies (createWorld sh n0) = [terrain (Suc n0 + sh ''terrain'')]"
  "static_bodies (createWorld sh n0) = []"
  "dynamic_bodies (createWorld sh n0) = []"
  "socketIds (createWorld sh n0) = Map.empty"
  "connected (createWorld sh n0) = {}"
  "player (createWorld sh n0) = (\<lambda>sk. None)"
  "sent (createWorld sh n0) = []"
  by (simp_all add: createWorld_def Let_def Composite_add_def took_id_def fresh_id_def)

lemma world_bodies_run: "world_bodies (run sh n0 evs) = [terrain (Suc n0 + sh ''terrain'')]"
  unfolding run_def
  by (induction evs rule: rev_induct) (simp_all add: createWorld_fields world_bodies_step)



lemma gamestate_filter:
  "gamestate bs =
     map (\<lambda>b. \<lparr>upd_i = ident b, upd_x = Math_round (pos_x (position b)),
                upd_y = Math_round (pos_y (position b)),
                upd_r = div100 (Math_round (times100 (angle b)))\<rparr>)
         (filter (\<lambda>b. \<not> isSleeping b) bs)"
  by (induction bs) (simp_all add: gamestate_def flatMap_def)



lemma removeBody_filter:
  "distinct (map ident bs) \<Longrightarrow> removeBody b bs = filter (\<lambda>c. ident c \<noteq> ident b) bs"
proof (induction bs)
  case Nil
  show ?case by simp
next
  case (Cons c cs)
  show ?case
  proof (cases "ident c = ident b")
    case True
    with Cons.prems have "ident b \<notin> ident ` set cs" by simp
    then have "\<forall>d \<in> set cs. ident d \<noteq> ident b" by (metis image_eqI)
    then have "filter (\<lambda>c. ident c \<noteq> ident b) cs = cs" by (simp add: filter_id_conv)
    with True show ?thesis by simp
  next
    case False
    with Cons show ?thesis by simp
  qed
qed

lemma length_removeBody:
  "ident b \<in> ident ` set bs \<Longrightarrow> Suc (length (removeBody b bs)) = length bs"
  by (induction bs) auto


section \<open>Rounding to a double\<close>

text \<open>
  The error of one rounding to a double: at most half a unit in the last place, which
  for a number in the normal range is at most the \<open>2 ^ 53\<close>-th part of its magnitude.
\<close>

lemma Math_round_idem: "Math_round (Math_round v) = Math_round v"
  by (cases v) (simp_all add: Math_round_def floor_eq_iff)

lemma round_half_even_error: "\<bar>of_int (round_half_even y) - y\<bar> \<le> 1 / 2"
proof -
  define f where "f = \<lfloor>y\<rfloor>"
  have b: "of_int f \<le> y" "y < of_int f + 1" unfolding f_def by linarith+
  have "round_half_even y = f \<and> y - of_int f \<le> 1 / 2 \<or>
        round_half_even y = f + 1 \<and> 1 / 2 \<le> y - of_int f"
    unfolding round_half_even_def Let_def f_def[symmetric] by auto
  then show ?thesis
  proof
    assume "round_half_even y = f \<and> y - of_int f \<le> 1 / 2"
    with b show ?thesis by simp
  next
    assume "round_half_even y = f + 1 \<and> 1 / 2 \<le> y - of_int f"
    with b show ?thesis by simp
  qed
qed

lemma ilog2_ge1:
  assumes "1 \<le> q"
  shows "2 powi (ilog2 q) \<le> q \<and> q < 2 powi (ilog2 q + 1)"
proof -
  let ?n = "\<lfloor>q\<rfloor>"
  have n: "0 < ?n" using assms by linarith
  from bitlen_bounds[OF n] have b: "2 ^ nat (bitlen ?n - 1) \<le> ?n" "?n < 2 ^ nat (bitlen ?n)" by simp_all
  have b1: "1 \<le> bitlen ?n" using n by (simp add: bitlen_alt_def)
  have e: "ilog2 q = bitlen ?n - 1" using assms by (simp add: ilog2_def)
  have "(2::rat) powi (bitlen ?n - 1) = of_int (2 ^ nat (bitlen ?n - 1))"
    using b1 by (simp add: power_int_def)
  also have "\<dots> \<le> of_int ?n" using b(1) by (simp only: of_int_le_iff)
  also have "\<dots> \<le> q" by simp
  finally have lo: "2 powi (ilog2 q) \<le> q" using e by simp
  have "?n + 1 \<le> 2 ^ nat (bitlen ?n)" using b(2) by simp
  then have "(of_int (?n + 1) :: rat) \<le> of_int (2 ^ nat (bitlen ?n))" by (simp only: of_int_le_iff)
  moreover have "q < of_int (?n + 1)" by linarith
  moreover have "(2::rat) powi (bitlen ?n) = of_int (2 ^ nat (bitlen ?n))"
    using b1 by (simp add: power_int_def)
  ultimately have "q < 2 powi (ilog2 q + 1)" using e by simp
  with lo show ?thesis ..
qed

lemma ilog2_lt1:
  assumes "0 < q" "q < 1"
  shows "2 powi (ilog2 q) \<le> q \<and> q < 2 powi (ilog2 q + 1)"
proof -
  let ?y = "1 / q"
  let ?m = "\<lceil>?y\<rceil> - 1"
  have y: "1 < ?y" using assms by simp
  then have m: "0 < ?m" by linarith
  from bitlen_bounds[OF m] have b: "2 ^ nat (bitlen ?m - 1) \<le> ?m" "?m < 2 ^ nat (bitlen ?m)" by simp_all
  have b1: "1 \<le> bitlen ?m" using m by (simp add: bitlen_alt_def)
  have e: "ilog2 q = - bitlen ?m" using assms by (simp add: ilog2_def)
  have p1: "(2::rat) powi (- bitlen ?m) = 1 / of_int (2 ^ nat (bitlen ?m))"
    using b1 by (simp add: power_int_def power_one_over inverse_eq_divide)
  have p2: "(2::rat) powi (- bitlen ?m + 1) = 1 / of_int (2 ^ nat (bitlen ?m - 1))"
    using b1 by (simp add: power_int_def power_one_over inverse_eq_divide)
  have "?m + 1 \<le> 2 ^ nat (bitlen ?m)" using b(2) by simp
  then have "(of_int (?m + 1) :: rat) \<le> of_int (2 ^ nat (bitlen ?m))" by (simp only: of_int_le_iff)
  moreover have "?y \<le> of_int (?m + 1)" by simp
  ultimately have "?y \<le> of_int (2 ^ nat (bitlen ?m))" by linarith
  then have lo: "1 / of_int (2 ^ nat (bitlen ?m)) \<le> q"
    using assms(1) by (simp add: field_simps)
  have "(of_int (2 ^ nat (bitlen ?m - 1)) :: rat) \<le> of_int ?m" using b(1) by (simp only: of_int_le_iff)
  moreover have "of_int ?m < ?y" by linarith
  ultimately have "of_int (2 ^ nat (bitlen ?m - 1)) < ?y" by linarith
  then have hi: "q < 1 / of_int (2 ^ nat (bitlen ?m - 1))"
    using assms(1) by (simp add: field_simps)
  have "2 powi (ilog2 q) \<le> q" using lo by (simp only: e p1)
  moreover have "q < 2 powi (ilog2 q + 1)" using hi by (simp only: e p2)
  ultimately show ?thesis ..
qed

lemma ilog2_bounds: "0 < q \<Longrightarrow> 2 powi (ilog2 q) \<le> q \<and> q < 2 powi (ilog2 q + 1)"
  using ilog2_ge1[of q] ilog2_lt1[of q] by (cases "1 \<le> q") simp_all


lemma to_double_error:
  assumes "q \<noteq> 0" "\<bar>q\<bar> \<le> 2 ^ 60"
  shows "\<exists>r. to_double q = Fin r \<and>
           \<bar>r - q\<bar> \<le> (if 2 powi (- 1022) \<le> \<bar>q\<bar> then \<bar>q\<bar> / 2 ^ 53 else 2 powi (- 1075))"
proof -
  define l where "l = ilog2 \<bar>q\<bar>"
  define e where "e = max l (- 1022)"
  define u :: rat where "u = 2 powi (e - 52)"
  define r where "r = of_int (round_half_even (q / u)) * u"
  have pos: "0 < \<bar>q\<bar>" using assms(1) by simp
  from ilog2_bounds[OF pos] have l: "2 powi l \<le> \<bar>q\<bar>" "\<bar>q\<bar> < 2 powi (l + 1)"
    unfolding l_def by simp_all
  have u: "0 < u" unfolding u_def by simp
  have half: "u / 2 = 2 powi (e - 53)"
    unfolding u_def using power_int_diff[of "2::rat" "e - 52" 1] by simp
  have "r - q = u * (of_int (round_half_even (q / u)) - q / u)"
    unfolding r_def using u by (simp add: field_simps)
  then have "\<bar>r - q\<bar> = u * \<bar>of_int (round_half_even (q / u)) - q / u\<bar>"
    using u by (simp add: abs_mult)
  also have "\<dots> \<le> u * (1 / 2)"
    using u round_half_even_error[of "q / u"] by (intro mult_left_mono) simp_all
  finally have err: "\<bar>r - q\<bar> \<le> 2 powi (e - 53)" using half by simp
  have bound: "\<bar>r - q\<bar> \<le> (if 2 powi (- 1022) \<le> \<bar>q\<bar> then \<bar>q\<bar> / 2 ^ 53 else 2 powi (- 1075))"
  proof (cases "2 powi (- 1022) \<le> \<bar>q\<bar>")
    case True
    have "- 1022 \<le> l"
    proof (rule ccontr)
      assume "\<not> - 1022 \<le> l"
      then have "l + 1 \<le> - 1022" by simp
      then have "(2::rat) powi (l + 1) \<le> 2 powi (- 1022)" by (intro power_int_increasing) simp_all
      with l(2) True show False by linarith
    qed
    then have "e = l" unfolding e_def by simp
    then have "(2::rat) powi (e - 53) = 2 powi l / 2 ^ 53"
      using power_int_diff[of "2::rat" l 53] by simp
    also have "\<dots> \<le> \<bar>q\<bar> / 2 ^ 53" using l(1) by (simp add: divide_right_mono)
    finally show ?thesis using err True by simp
  next
    case False
    have "l < - 1022"
    proof (rule ccontr)
      assume "\<not> l < - 1022"
      then have "(2::rat) powi (- 1022) \<le> 2 powi l" by (intro power_int_increasing) simp_all
      with l(1) False show False by linarith
    qed
    then have "e = - 1022" unfolding e_def by simp
    then show ?thesis using err False by simp
  qed
  have small: "(if 2 powi (- 1022) \<le> \<bar>q\<bar> then \<bar>q\<bar> / 2 ^ 53 else 2 powi (- 1075)) \<le> (2::rat) ^ 60"
    using assms(2) by (simp add: power_int_minus_divide)
  have "\<bar>r\<bar> \<le> \<bar>q\<bar> + \<bar>r - q\<bar>" by simp
  also have "\<dots> \<le> 2 ^ 60 + 2 ^ 60" using assms(2) bound small by linarith
  also have "\<dots> < 2 powi 1024" by simp
  finally have fin: "\<not> 2 powi 1024 \<le> \<bar>r\<bar>" by simp
  have "to_double q = Fin r"
    using assms(1) fin unfolding to_double_def Let_def r_def u_def e_def l_def by simp
  with bound show ?thesis by blast
qed


lemma to_double_0: "to_double 0 = Fin 0"
  by (simp add: to_double_def)

lemma to_double_normal:
  assumes "1 / 100 \<le> \<bar>q\<bar>" "\<bar>q\<bar> \<le> 2 ^ 60"
  shows "\<exists>r. to_double q = Fin r \<and> \<bar>r - q\<bar> \<le> \<bar>q\<bar> / 2 ^ 53"
proof -
  have "(2::rat) powi (- 1022) \<le> 1 / 100" by (simp add: power_int_minus_divide)
  with assms(1) have n: "2 powi (- 1022) \<le> \<bar>q\<bar>" by linarith
  from assms(1) have "q \<noteq> 0" by auto
  from to_double_error[OF this assms(2)] n show ?thesis by simp
qed

lemma to_double_near:
  assumes "\<bar>q\<bar> \<le> 2 ^ 60"
  shows "\<exists>r. to_double q = Fin r \<and> \<bar>r - q\<bar> \<le> \<bar>q\<bar> / 2 ^ 53 + 1"
proof (cases "q = 0")
  case True
  then show ?thesis by (simp add: to_double_0)
next
  case False
  have p: "(2::rat) powi (- 1075) \<le> 1" by (simp add: power_int_minus_divide)
  have z: "0 \<le> \<bar>q\<bar> / 2 ^ 53" by simp
  have "(if 2 powi (- 1022) \<le> \<bar>q\<bar> then \<bar>q\<bar> / 2 ^ 53 else 2 powi (- 1075))
      \<le> \<bar>q\<bar> / 2 ^ 53 + 1"
  proof (cases "2 powi (- 1022) \<le> \<bar>q\<bar>")
    case True
    then show ?thesis by simp
  next
    case False
    from p z have "(2::rat) powi (- 1075) \<le> \<bar>q\<bar> / 2 ^ 53 + 1" by linarith
    with False show ?thesis by simp
  qed
  with to_double_error[OF False assms] show ?thesis by force
qed

lemma round2_of_int:
  assumes "\<bar>n\<bar> \<le> 2 ^ 50"
  shows "div100 (Math_round (times100 (div100 (Fin (of_int n))))) = div100 (Fin (of_int n))"
proof (cases "n = 0")
  case True
  have "\<lfloor>(1::rat) / 2\<rfloor> = 0" by (simp add: floor_eq_iff)
  with True show ?thesis
    by (simp add: div100_def times100_def Math_round_def to_double_0)
next
  case False
  define x :: rat where "x = of_int n / 100"
  have n1: "1 \<le> \<bar>of_int n :: rat\<bar>" using False by (simp flip: of_int_abs)
  have n2: "\<bar>of_int n :: rat\<bar> \<le> 2 ^ 50"
  proof -
    have "(of_int \<bar>n\<bar> :: rat) \<le> of_int (2 ^ 50)" using assms by (simp only: of_int_le_iff)
    then show ?thesis by simp
  qed
  have ax: "\<bar>x\<bar> = \<bar>of_int n\<bar> / 100" unfolding x_def by simp
  have x1: "1 / 100 \<le> \<bar>x\<bar>" using n1 unfolding ax by simp
  have x2: "\<bar>x\<bar> \<le> 2 ^ 60" using n2 unfolding ax by simp
  from to_double_normal[OF x1 x2] obtain r where
    r: "to_double x = Fin r" "\<bar>r - x\<bar> \<le> \<bar>x\<bar> / 2 ^ 53" by blast
  have "r * 100 - of_int n = (r - x) * 100" unfolding x_def by simp
  then have "\<bar>r * 100 - of_int n\<bar> = \<bar>r - x\<bar> * 100" by (simp only: abs_mult)
  also have "\<dots> \<le> \<bar>x\<bar> / 2 ^ 53 * 100" using r(2) by simp
  also have "\<dots> = \<bar>of_int n\<bar> / 2 ^ 53" unfolding ax by simp
  also have "\<dots> \<le> 2 ^ 50 / 2 ^ 53" using n2 by (simp add: divide_right_mono)
  finally have d1: "\<bar>r * 100 - of_int n\<bar> \<le> 1 / 8" by simp
  have y1: "1 / 100 \<le> \<bar>r * 100\<bar>" using d1 n1 by linarith
  have y2: "\<bar>r * 100\<bar> \<le> 2 ^ 50 + 1 / 8" using d1 n2 by linarith
  then have y3: "\<bar>r * 100\<bar> \<le> 2 ^ 60" by simp
  from to_double_normal[OF y1 y3] obtain t where
    t: "to_double (r * 100) = Fin t" "\<bar>t - r * 100\<bar> \<le> \<bar>r * 100\<bar> / 2 ^ 53" by blast
  have "\<bar>r * 100\<bar> / 2 ^ 53 \<le> (2 ^ 50 + 1 / 8) / 2 ^ 53"
    using y2 by (simp add: divide_right_mono)
  also have "\<dots> \<le> 1 / 4" by simp
  finally have d2: "\<bar>t - r * 100\<bar> \<le> 1 / 4" using t(2) by linarith
  have "\<lfloor>t + 1 / 2\<rfloor> = n"
    using d1 d2 by (intro floor_unique) linarith+
  then have "Math_round (times100 (div100 (Fin (of_int n)))) = Fin (of_int n)"
    using r(1) t(1) by (simp add: div100_def times100_def Math_round_def x_def)
  then show ?thesis by simp
qed

lemma round2_idem:
  assumes "\<bar>q\<bar> \<le> 10 ^ 13"
  shows "div100 (Math_round (times100 (div100 (Math_round (times100 (Fin q)))))) =
         div100 (Math_round (times100 (Fin q)))"
proof -
  have a: "\<bar>q * 100\<bar> \<le> 10 ^ 15" using assms by (simp add: abs_mult)
  then have "\<bar>q * 100\<bar> \<le> 2 ^ 60" by simp
  from to_double_near[OF this] obtain t where
    t: "to_double (q * 100) = Fin t" "\<bar>t - q * 100\<bar> \<le> \<bar>q * 100\<bar> / 2 ^ 53 + 1" by blast
  have "\<bar>q * 100\<bar> / 2 ^ 53 \<le> 10 ^ 15 / 2 ^ 53" using a by (simp add: divide_right_mono)
  also have "\<dots> \<le> 1" by simp
  finally have "\<bar>t - q * 100\<bar> \<le> 2" using t(2) by linarith
  with a have "\<bar>t\<bar> \<le> 10 ^ 15 + 2" by linarith
  then have "\<bar>of_int \<lfloor>t + 1 / 2\<rfloor> :: rat\<bar> \<le> 10 ^ 15 + 3" by linarith
  then have "(of_int \<bar>\<lfloor>t + 1 / 2\<rfloor>\<bar> :: rat) \<le> of_int (2 ^ 50)" by simp
  then have n: "\<bar>\<lfloor>t + 1 / 2\<rfloor>\<bar> \<le> 2 ^ 50" by (simp only: of_int_le_iff)
  have "Math_round (times100 (Fin q)) = Fin (of_int \<lfloor>t + 1 / 2\<rfloor>)"
    using t(1) by (simp add: times100_def Math_round_def)
  with round2_of_int[OF n] show ?thesis by simp
qed

text \<open>The value of \<open>to_double\<close>, from the exponent and the rounded significand.\<close>

lemma ilog2_unique:
  assumes "2 powi e \<le> q" "q < 2 powi (e + 1)"
  shows "ilog2 q = e"
proof -
  have "0 < (2::rat) powi e" by simp
  with assms(1) have "0 < q" by linarith
  from ilog2_bounds[OF this] have l: "2 powi (ilog2 q) \<le> q" "q < 2 powi (ilog2 q + 1)"
    by simp_all
  have "\<not> ilog2 q < e"
  proof
    assume "ilog2 q < e"
    then have "(2::rat) powi (ilog2 q + 1) \<le> 2 powi e" by (intro power_int_increasing) simp_all
    with l(2) assms(1) show False by linarith
  qed
  moreover have "\<not> e < ilog2 q"
  proof
    assume "e < ilog2 q"
    then have "(2::rat) powi (e + 1) \<le> 2 powi (ilog2 q)" by (intro power_int_increasing) simp_all
    with l(1) assms(2) show False by linarith
  qed
  ultimately show ?thesis by simp
qed

lemma to_double_eval:
  assumes "2 powi e \<le> \<bar>q\<bar>" "\<bar>q\<bar> < 2 powi (e + 1)" "- 1022 \<le> e"
    and "round_half_even (q / 2 powi (e - 52)) = m"
    and "\<bar>of_int m * 2 powi (e - 52)\<bar> < (2::rat) powi 1024"
  shows "to_double q = Fin (of_int m * 2 powi (e - 52))"
proof -
  have "0 < (2::rat) powi e" by simp
  with assms(1) have "0 < \<bar>q\<bar>" by linarith
  then have "q \<noteq> 0" by simp
  moreover have "max (ilog2 \<bar>q\<bar>) (- 1022) = e"
    using ilog2_unique[OF assms(1,2)] assms(3) by simp
  ultimately show ?thesis
    using assms(4,5) unfolding to_double_def Let_def by (simp del: power_int_numeral)
qed

text \<open>How far the rounded angle is from the angle.\<close>

lemma round2_close:
  assumes "\<bar>a\<bar> \<le> 10 ^ 13"
  shows "\<exists>t n r. times100 (Fin a) = Fin t \<and>
           \<bar>t - a * 100\<bar> \<le> \<bar>a * 100\<bar> / 2 ^ 53 + 2 powi (- 1075) \<and>
           of_int n \<le> t + 1 / 2 \<and> t + 1 / 2 < of_int n + 1 \<and>
           div100 (Math_round (times100 (Fin a))) = Fin r \<and>
           \<bar>r - of_int n / 100\<bar> \<le> \<bar>of_int n / 100\<bar> / 2 ^ 53"
proof -
  have x: "\<bar>a * 100\<bar> \<le> 10 ^ 15" using assms by (simp add: abs_mult)
  then have x60: "\<bar>a * 100\<bar> \<le> 2 ^ 60" by simp
  have p0: "0 \<le> (2::rat) powi (- 1075)" by (simp del: power_int_numeral_neg_numeral)
  have z: "0 \<le> \<bar>a * 100\<bar> / 2 ^ 53" by simp
  have "\<exists>t. to_double (a * 100) = Fin t \<and>
          \<bar>t - a * 100\<bar> \<le> \<bar>a * 100\<bar> / 2 ^ 53 + 2 powi (- 1075)"
  proof (cases "a * 100 = 0")
    case True
    with p0 show ?thesis by (simp add: to_double_0 del: power_int_numeral_neg_numeral)
  next
    case False
    from to_double_error[OF False x60] obtain t where
      t: "to_double (a * 100) = Fin t"
         "\<bar>t - a * 100\<bar> \<le> (if 2 powi (- 1022) \<le> \<bar>a * 100\<bar> then \<bar>a * 100\<bar> / 2 ^ 53
                              else 2 powi (- 1075))" by blast
    have "(if 2 powi (- 1022) \<le> \<bar>a * 100\<bar> then \<bar>a * 100\<bar> / 2 ^ 53 else 2 powi (- 1075))
          \<le> \<bar>a * 100\<bar> / 2 ^ 53 + 2 powi (- 1075)"
    proof (cases "2 powi (- 1022) \<le> \<bar>a * 100\<bar>")
      case True
      with p0 show ?thesis by (simp del: power_int_numeral_neg_numeral)
    next
      case False
      with z show ?thesis by (simp del: power_int_numeral_neg_numeral)
    qed
    with t show ?thesis by force
  qed
  then obtain t where t: "to_double (a * 100) = Fin t"
    "\<bar>t - a * 100\<bar> \<le> \<bar>a * 100\<bar> / 2 ^ 53 + 2 powi (- 1075)" by blast
  define n where "n = \<lfloor>t + 1 / 2\<rfloor>"
  have n: "of_int n \<le> t + 1 / 2" "t + 1 / 2 < of_int n + 1" unfolding n_def by linarith+
  have mr: "Math_round (times100 (Fin a)) = Fin (of_int n)"
    using t(1) by (simp add: times100_def Math_round_def n_def)
  have "\<bar>a * 100\<bar> / 2 ^ 53 \<le> 10 ^ 15 / 2 ^ 53" using x by (simp add: divide_right_mono)
  then have "\<bar>a * 100\<bar> / 2 ^ 53 \<le> 1" by simp
  moreover have "(2::rat) powi (- 1075) \<le> 1" by (simp add: power_int_minus_divide)
  ultimately have "\<bar>t - a * 100\<bar> \<le> 2" using t(2) by linarith
  with x n have nb: "\<bar>of_int n :: rat\<bar> \<le> 10 ^ 15 + 3" by linarith
  have "\<exists>r. to_double (of_int n / 100) = Fin r \<and>
          \<bar>r - of_int n / 100\<bar> \<le> \<bar>of_int n / 100\<bar> / 2 ^ 53"
  proof (cases "n = 0")
    case True
    then show ?thesis by (simp add: to_double_0)
  next
    case False
    then have "1 \<le> \<bar>of_int n :: rat\<bar>" by (simp flip: of_int_abs)
    then have lo: "1 / 100 \<le> \<bar>of_int n / 100 :: rat\<bar>" by simp
    have hi: "\<bar>of_int n / 100 :: rat\<bar> \<le> 2 ^ 60" using nb by simp
    from to_double_normal[OF lo hi] show ?thesis .
  qed
  then obtain r where r: "to_double (of_int n / 100) = Fin r"
    "\<bar>r - of_int n / 100\<bar> \<le> \<bar>of_int n / 100\<bar> / 2 ^ 53" by blast
  have "div100 (Math_round (times100 (Fin a))) = Fin r"
    using mr r(1) by (simp add: div100_def)
  with t n r(2) show ?thesis unfolding times100_def by auto
qed


section \<open>The render info of bodies\<close>

text \<open>
  Claim C8. \<open>renderInfo\<close> is a function of its argument alone. For one body it returns
  exactly one record, for an array of bodies one record for each body, in order. The
  record of a body has the id, the shape and the position of that body; it has an angle
  exactly when the shape of the body is \<open>player\<close>, and then it is the angle of the body.
\<close>

theorem renderInfo_one_record_each:
  "renderInfo (One b) = [renderBody b] \<and>
   renderInfo (Many bs) = map renderBody bs \<and>
   length (renderInfo (Many bs)) = length bs \<and>
   info_id (renderBody b) = ident b \<and>
   info_shape (renderBody b) = shape b \<and>
   info_position (renderBody b) = position b \<and>
   (info_angle (renderBody b) \<noteq> None \<longleftrightarrow> shape b = Some ''player'') \<and>
   (shape b = Some ''player'' \<longrightarrow> info_angle (renderBody b) = Some (angle b))"
  by (simp add: renderInfo_def renderBody_def Let_def)

theorem renderInfo_one_record_each_witness:
  "shape (createPlayer 7 ''bob'') = Some ''player'' \<and>
   renderInfo (One (createPlayer 7 ''bob'')) =
     [\<lparr>info_id = 7, info_shape = Some ''player'',
       info_position = \<lparr>pos_x = Fin 0, pos_y = Fin (- 300)\<rparr>, info_angle = Some (Fin 0)\<rparr>] \<and>
   renderInfo (Many [createBag 5 (Fin 10) (Fin 20) 3 1 2, createPlayer 7 ''bob'']) =
     [\<lparr>info_id = 5, info_shape = Some ''bag'',
       info_position = \<lparr>pos_x = Fin 10, pos_y = Fin 20\<rparr>, info_angle = None\<rparr>,
      \<lparr>info_id = 7, info_shape = Some ''player'',
       info_position = \<lparr>pos_x = Fin 0, pos_y = Fin (- 300)\<rparr>, info_angle = Some (Fin 0)\<rparr>]"
proof -
  have h: "shape (createPlayer 7 ''bob'') = Some ''player''"
    by (simp add: createPlayer_def new_body_def)
  have v: "renderBody (createPlayer 7 ''bob'') =
      \<lparr>info_id = 7, info_shape = Some ''player'',
       info_position = \<lparr>pos_x = Fin 0, pos_y = Fin (- 300)\<rparr>, info_angle = Some (Fin 0)\<rparr>"
    "renderBody (createBag 5 (Fin 10) (Fin 20) 3 1 2) =
      \<lparr>info_id = 5, info_shape = Some ''bag'',
       info_position = \<lparr>pos_x = Fin 10, pos_y = Fin 20\<rparr>, info_angle = None\<rparr>"
    by (simp_all add: renderBody_def createPlayer_def createBag_def new_body_def)
  from renderInfo_one_record_each[of "createPlayer 7 ''bob''"
      "[createBag 5 (Fin 10) (Fin 20) 3 1 2, createPlayer 7 ''bob'']"] h v
  show ?thesis by simp
qed


section \<open>The messages for added and removed bodies\<close>




section \<open>Joining\<close>

text \<open>
  Claim C1. In every run of the server, a join on a socket sends, in this order, the id
  of the new player, then to that socket alone the render info of the static and dynamic
  bodies as they are before the join (no such message when there are none), and then to
  everyone the record of the new player, which is only then in \<open>dynamic\<close>. The id of the
  new player is not among the ids of the private message.
\<close>

theorem join_snapshot_before_add:
  fixes sh n0 evs sk nick
  defines "s \<equiv> run sh n0 evs"
  defines "p \<equiv> createPlayer (nextId s + sh ''player'') nick"
  shows "sent (join sh sk nick s) =
           sent s @ [SendId sk (ident p)] @
           (if static_bodies s @ dynamic_bodies s = [] then []
            else [Socket_emit_add sk
                    (Many (renderInfo (Many (static_bodies s @ dynamic_bodies s))))]) @
           [Io_emit_add (One (renderBody p))] \<and>
         dynamic_bodies (join sh sk nick s) = dynamic_bodies s @ [p] \<and>
         static_bodies (join sh sk nick s) = static_bodies s \<and>
         ident p \<notin> info_id ` set (renderInfo (Many (static_bodies s @ dynamic_bodies s)))"
proof -
  have "inv s" unfolding s_def by (rule inv_run)
  from invD(2)[OF this] have "ident p \<notin> ident ` set (static_bodies s @ dynamic_bodies s)"
    unfolding p_def all_bodies_def by fastforce
  then have "ident p \<notin> info_id ` set (renderInfo (Many (static_bodies s @ dynamic_bodies s)))"
    by (simp add: renderInfo_def image_image image_Un)
  then show ?thesis
    by (simp add: join_fields p_def renderInfo_def)
qed

text \<open>
  Claim C10. What a join sends to the joining socket alone is always an array of
  records, also when exactly one static or dynamic body exists: it is never the single
  record that \<open>afterAdd\<close> sends to everyone for one added body.
\<close>

theorem join_snapshot_is_sequence:
  "private_adds sk (drop (length (sent s)) (sent (join sh sk nick s))) =
     (if static_bodies s @ dynamic_bodies s = [] then []
      else [Many (map renderBody (static_bodies s @ dynamic_bodies s))]) \<and>
   One r \<notin> set (private_adds sk (drop (length (sent s)) (sent (join sh sk nick s))))"
  by (simp add: join_fields)

text \<open>
  Claim C3. The handler of \<open>join\<close> has no check for a socket that has joined already,
  against the comment at the variable \<open>player\<close> (one player per connection): a second join
  on the same socket does not fail. It makes a second player, records the socket under
  both ids and sends the first player to the socket as a body that exists already; a
  disconnect then removes the second player only, and the first stays in \<open>dynamic\<close>.
\<close>

theorem second_join_makes_second_player:
  "map ident (dynamic_bodies
     (run (\<lambda>name. 0) 0 [Connection ''c'', Join ''c'' ''bob'', Join ''c'' ''bob''])) = [4, 5] \<and>
   socketIds (run (\<lambda>name. 0) 0 [Connection ''c'', Join ''c'' ''bob'', Join ''c'' ''bob'']) 4
     = Some ''c'' \<and>
   socketIds (run (\<lambda>name. 0) 0 [Connection ''c'', Join ''c'' ''bob'', Join ''c'' ''bob'']) 5
     = Some ''c'' \<and>
   sent (run (\<lambda>name. 0) 0 [Connection ''c'', Join ''c'' ''bob'', Join ''c'' ''bob'']) =
     [SendId ''c'' 4, Io_emit_add (One (renderBody (createPlayer 4 ''bob''))),
      SendId ''c'' 5, Socket_emit_add ''c'' (Many [renderBody (createPlayer 4 ''bob'')]),
      Io_emit_add (One (renderBody (createPlayer 5 ''bob'')))] \<and>
   map ident (dynamic_bodies
     (run (\<lambda>name. 0) 0
        [Connection ''c'', Join ''c'' ''bob'', Join ''c'' ''bob'', Disconnect ''c''])) = [4]"
  by (simp add: run_def createWorld_fields join_fields disconnect_fields eval_nat_numeral)


section \<open>The regular update\<close>

text \<open>
  The angle \<open>84.66499999999999\<close> is a double below \<open>84.665\<close>; its product with 100 is
  rounded to the double \<open>8466.5\<close>, so that the update carries the double of \<open>84.67\<close>,
  while the number with two decimal places that is nearest to the angle is \<open>84.66\<close>.
\<close>

theorem angle_two_decimals_counterexample:
  "to_double (2978884862900961 / 35184372088832) = Fin (2978884862900961 / 35184372088832) \<and>
   times100 (Fin (2978884862900961 / 35184372088832)) = Fin (16933 / 2) \<and>
   div100 (Math_round (times100 (Fin (2978884862900961 / 35184372088832)))) = to_double (8467 / 100) \<and>
   to_double (8467 / 100) = Fin (5958121569522811 / 70368744177664) \<and>
   to_double (8466 / 100) = Fin (2978708941040517 / 35184372088832) \<and>
   \<bar>8466 / 100 - 2978884862900961 / 35184372088832 :: rat\<bar> <
   \<bar>8467 / 100 - 2978884862900961 / 35184372088832 :: rat\<bar>"
proof -
  have fl: "\<lfloor>(5957769725801922::rat)\<rfloor> = 5957769725801922"
    "\<lfloor>(74472121572524025::rat) / 16\<rfloor> = 4654507598282751"
    "\<lfloor>(148953039238070272::rat) / 25\<rfloor> = 5958121569522810"
    "\<lfloor>(148935447052025856::rat) / 25\<rfloor> = 5957417882081034"
    "\<lfloor>(16933::rat) / 2 + 1 / 2\<rfloor> = 8467"
    by (rule floor_unique; simp)+
  have rhe: "round_half_even (5957769725801922 :: rat) = 5957769725801922"
    "round_half_even (74472121572524025 / 16) = 4654507598282752"
    "round_half_even (148953039238070272 / 25) = 5958121569522811"
    "round_half_even (148935447052025856 / 25) = 5957417882081034"
    by (simp_all add: round_half_even_def Let_def fl)
  have a: "to_double (2978884862900961 / 35184372088832) = Fin (2978884862900961 / 35184372088832)"
    using to_double_eval[of 6 "2978884862900961 / 35184372088832" 5957769725801922]
    by (simp add: rhe power_int_minus_divide)
  have b: "to_double (2978884862900961 / 35184372088832 * 100) = Fin (16933 / 2)"
    using to_double_eval[of 13 "2978884862900961 / 35184372088832 * 100" 4654507598282752]
    by (simp add: rhe power_int_minus_divide)
  have c: "to_double (8467 / 100) = Fin (5958121569522811 / 70368744177664)"
    using to_double_eval[of 6 "8467 / 100" 5958121569522811]
    by (simp add: rhe power_int_minus_divide)
  have d: "to_double (8466 / 100) = Fin (2978708941040517 / 35184372088832)"
    using to_double_eval[of 6 "8466 / 100" 5957417882081034]
    by (simp add: rhe power_int_minus_divide)
  have e: "\<bar>8466 / 100 - 2978884862900961 / 35184372088832 :: rat\<bar> <
           \<bar>8467 / 100 - 2978884862900961 / 35184372088832 :: rat\<bar>" by simp
  have "times100 (Fin (2978884862900961 / 35184372088832)) = Fin (16933 / 2)"
    using b by (simp add: times100_def)
  moreover have "div100 (Math_round (times100 (Fin (2978884862900961 / 35184372088832)))) =
      to_double (8467 / 100)"
    using b fl(5) by (simp add: div100_def times100_def Math_round_def)
  ultimately show ?thesis using a c d e by simp
qed

text \<open>
  Claim C4, amended. The regular update carries exactly one record for each dynamic body
  that is not sleeping, in the order of \<open>dynamic\<close>, and none for a sleeping body (so it
  may be empty). The record of a body has its id and its two coordinates rounded by
  \<open>Math.round\<close>: for a finite number the nearest integer, the upper one of two equally
  near, and the number itself otherwise. Its \<open>r\<close> is the angle multiplied by 100, rounded
  by \<open>Math.round\<close> and divided by 100 in double arithmetic. For an angle of magnitude at
  most \<open>10 ^ 13\<close> that is the double next to \<open>n / 100\<close>, where \<open>n\<close> is the integer that
  \<open>Math.round\<close> gives for the double product, and the double product is off the
  hundredfold of the angle by at most its \<open>2 ^ 53\<close>-th part (and \<open>2 powi - 1075\<close>): a
  number of two decimal places next to the angle, not always the nearest one. For an
  angle that is not finite, \<open>r\<close> is the angle.
\<close>

theorem update_has_every_awake_dynamic_body:
  "sent (emitRegularUpdates s) =
     sent s @ [Io_volatile_emit_update
                 (map (\<lambda>b. \<lparr>upd_i = ident b, upd_x = Math_round (pos_x (position b)),
                            upd_y = Math_round (pos_y (position b)),
                            upd_r = div100 (Math_round (times100 (angle b)))\<rparr>)
                      (filter (\<lambda>b. \<not> isSleeping b) (dynamic_bodies s)))] \<and>
   (\<exists>n. Math_round (Fin q) = Fin (of_int n) \<and> of_int n \<le> q + 1 / 2 \<and> q + 1 / 2 < of_int n + 1) \<and>
   Math_round NaN = NaN \<and> Math_round PosInf = PosInf \<and> Math_round NegInf = NegInf \<and>
   div100 (Math_round (times100 NaN)) = NaN \<and>
   div100 (Math_round (times100 PosInf)) = PosInf \<and>
   div100 (Math_round (times100 NegInf)) = NegInf \<and>
   (\<bar>a\<bar> \<le> 10 ^ 13 \<longrightarrow>
      (\<exists>t n r. times100 (Fin a) = Fin t \<and>
         \<bar>t - a * 100\<bar> \<le> \<bar>a * 100\<bar> / 2 ^ 53 + 2 powi (- 1075) \<and>
         of_int n \<le> t + 1 / 2 \<and> t + 1 / 2 < of_int n + 1 \<and>
         div100 (Math_round (times100 (Fin a))) = Fin r \<and>
         \<bar>r - of_int n / 100\<bar> \<le> \<bar>of_int n / 100\<bar> / 2 ^ 53))"
proof -
  have "of_int \<lfloor>q + 1 / 2\<rfloor> \<le> q + 1 / 2" "q + 1 / 2 < of_int \<lfloor>q + 1 / 2\<rfloor> + 1" by linarith+
  then have m: "\<exists>n. Math_round (Fin q) = Fin (of_int n) \<and> of_int n \<le> q + 1 / 2 \<and>
      q + 1 / 2 < of_int n + 1"
    unfolding Math_round_def by (intro exI[of _ "\<lfloor>q + 1 / 2\<rfloor>"]) simp
  have u: "sent (emitRegularUpdates s) =
     sent s @ [Io_volatile_emit_update
                 (map (\<lambda>b. \<lparr>upd_i = ident b, upd_x = Math_round (pos_x (position b)),
                            upd_y = Math_round (pos_y (position b)),
                            upd_r = div100 (Math_round (times100 (angle b)))\<rparr>)
                      (filter (\<lambda>b. \<not> isSleeping b) (dynamic_bodies s)))]"
    by (simp add: tick_fields gamestate_filter)
  have n: "Math_round NaN = NaN \<and> Math_round PosInf = PosInf \<and> Math_round NegInf = NegInf \<and>
      div100 (Math_round (times100 NaN)) = NaN \<and>
      div100 (Math_round (times100 PosInf)) = PosInf \<and>
      div100 (Math_round (times100 NegInf)) = NegInf"
    by (simp add: Math_round_def times100_def div100_def)
  from u m n round2_close[of a] show ?thesis by blast
qed

theorem update_has_every_awake_dynamic_body_witness:
  "\<bar>157 / 100 :: rat\<bar> \<le> 10 ^ 13 \<and>
   (\<exists>t n r. times100 (Fin (157 / 100)) = Fin t \<and>
      \<bar>t - 157 / 100 * 100\<bar> \<le> \<bar>157 / 100 * 100\<bar> / 2 ^ 53 + 2 powi (- 1075) \<and>
      of_int n \<le> t + 1 / 2 \<and> t + 1 / 2 < of_int n + 1 \<and>
      div100 (Math_round (times100 (Fin (157 / 100)))) = Fin r \<and>
      \<bar>r - of_int n / 100\<bar> \<le> \<bar>of_int n / 100\<bar> / 2 ^ 53) \<and>
   sent (emitRegularUpdates (createWorld (\<lambda>name. 0) 0)) = [Io_volatile_emit_update []]"
proof -
  have h: "\<bar>157 / 100 :: rat\<bar> \<le> 10 ^ 13" by simp
  have e: "sent (createWorld (\<lambda>name. 0) 0) = []" "dynamic_bodies (createWorld (\<lambda>name. 0) 0) = []"
    by (simp_all add: createWorld_fields)
  from update_has_every_awake_dynamic_body[of "createWorld (\<lambda>name. 0) 0" 0 "157 / 100"] h e
  show ?thesis by (simp del: power_int_numeral_neg_numeral)
qed


section \<open>Known bodies and the three collections\<close>

text \<open>
  Claim C5. In every run of the server the known bodies are the terrain alone, and no
  \<open>add\<close> or \<open>remove\<close> message that the server has sent, to everyone or to one socket,
  names the id of the terrain.
\<close>

theorem known_bodies_never_broadcast:
  "world_bodies (run sh n0 evs) = [terrain (Suc n0 + sh ''terrain'')] \<and>
   (\<forall>m \<in> set (sent (run sh n0 evs)). Suc n0 + sh ''terrain'' \<notin> msg_ids m)"
proof -
  have "\<forall>m \<in> set (sent (run sh n0 evs)).
      msg_ids m \<inter> ident ` set (world_bodies (run sh n0 evs)) = {}"
    using invD(5)[OF inv_run] by blast
  then show ?thesis by (simp add: world_bodies_run terrain_def new_body_def)
qed

theorem known_bodies_never_broadcast_witness:
  "Io_emit_remove (One 5) \<in> set (sent (run (\<lambda>name. 0) 0
      [Connection ''a'', Spawn (Fin 10) (Fin 20) 3 1 2, Join ''a'' ''ann'', Tick, Disconnect ''a''])) \<and>
   Suc 0 + 0 \<notin> msg_ids (Io_emit_remove (One 5))"
proof -
  let ?evs = "[Connection ''a'', Spawn (Fin 10) (Fin 20) 3 1 2, Join ''a'' ''ann'', Tick, Disconnect ''a'']"
  have m: "Io_emit_remove (One 5) \<in> set (sent (run (\<lambda>name. 0) 0 ?evs))"
    by (simp add: run_def createWorld_fields join_fields spawn_fields tick_fields disconnect_fields)
  from known_bodies_never_broadcast[of "\<lambda>name. 0" 0 ?evs] m show ?thesis by auto
qed

text \<open>
  Claim C6. In every run of the server no id is in two of the three collections of
  known, static and dynamic bodies at once.
\<close>

theorem id_in_one_collection:
  "ident ` set (world_bodies (run sh n0 evs)) \<inter>
     ident ` set (static_bodies (run sh n0 evs)) = {} \<and>
   ident ` set (world_bodies (run sh n0 evs)) \<inter>
     ident ` set (dynamic_bodies (run sh n0 evs)) = {} \<and>
   ident ` set (static_bodies (run sh n0 evs)) \<inter>
     ident ` set (dynamic_bodies (run sh n0 evs)) = {}"
  using invD(1)[OF inv_run, of sh n0 evs] by (auto simp: all_bodies_def)


section \<open>Disconnecting\<close>

text \<open>
  Claim C7. A disconnect on a socket whose variable \<open>player\<close> is undefined changes
  nothing and sends nothing. In every run of the server, a disconnect on a connected
  socket that has joined sends the message \<open>remove\<close> with the id of its player alone,
  takes exactly that player out of \<open>dynamic\<close>, where it was, leaves the other
  collections as they are, and deletes the entry of the player from \<open>socketIds\<close>.
\<close>

theorem disconnect_unjoined_or_joined:
  fixes sh n0 evs sk
  defines "s \<equiv> run sh n0 evs"
  shows "(player s0 sk = None \<longrightarrow> disconnect sk s0 = s0) \<and>
         (sk \<in> connected s \<and> player s sk = Some p \<longrightarrow>
            sent (disconnect sk s) = sent s @ [Io_emit_remove (One (ident p))] \<and>
            ident p \<in> ident ` set (dynamic_bodies s) \<and>
            dynamic_bodies (disconnect sk s) =
              filter (\<lambda>b. ident b \<noteq> ident p) (dynamic_bodies s) \<and>
            Suc (length (dynamic_bodies (disconnect sk s))) = length (dynamic_bodies s) \<and>
            static_bodies (disconnect sk s) = static_bodies s \<and>
            world_bodies (disconnect sk s) = world_bodies s \<and>
            socketIds (disconnect sk s) = (socketIds s)(ident p := None))"
proof -
  have i: "inv s" unfolding s_def by (rule inv_run)
  then have d: "distinct (map ident (dynamic_bodies s))"
    using invD(1)[OF i] by (simp add: all_bodies_def)
  have "player s0 sk = None \<longrightarrow> disconnect sk s0 = s0" by (simp add: disconnect_def)
  moreover {
    assume a: "sk \<in> connected s" "player s sk = Some p"
    have pin: "ident p \<in> ident ` set (dynamic_bodies s)" by (rule invD(3)[OF i a])
    have "sent (disconnect sk s) = sent s @ [Io_emit_remove (One (ident p))] \<and>
            ident p \<in> ident ` set (dynamic_bodies s) \<and>
            dynamic_bodies (disconnect sk s) =
              filter (\<lambda>b. ident b \<noteq> ident p) (dynamic_bodies s) \<and>
            Suc (length (dynamic_bodies (disconnect sk s))) = length (dynamic_bodies s) \<and>
            static_bodies (disconnect sk s) = static_bodies s \<and>
            world_bodies (disconnect sk s) = world_bodies s \<and>
            socketIds (disconnect sk s) = (socketIds s)(ident p := None)"
      using a pin length_removeBody[OF pin] removeBody_filter[OF d, of p]
      by (simp add: disconnect_fields)
  }
  ultimately show ?thesis by blast
qed

theorem disconnect_unjoined_or_joined_witness:
  "player (run (\<lambda>name. 0) 0 [Connection ''a'']) ''a'' = None \<and>
   disconnect ''a'' (run (\<lambda>name. 0) 0 [Connection ''a'']) = run (\<lambda>name. 0) 0 [Connection ''a''] \<and>
   ''a'' \<in> connected (run (\<lambda>name. 0) 0 [Connection ''a'', Join ''a'' ''ann'']) \<and>
   player (run (\<lambda>name. 0) 0 [Connection ''a'', Join ''a'' ''ann'']) ''a'' = Some (createPlayer 4 ''ann'') \<and>
   sent (disconnect ''a'' (run (\<lambda>name. 0) 0 [Connection ''a'', Join ''a'' ''ann''])) =
     sent (run (\<lambda>name. 0) 0 [Connection ''a'', Join ''a'' ''ann'']) @ [Io_emit_remove (One 4)] \<and>
   dynamic_bodies (disconnect ''a'' (run (\<lambda>name. 0) 0 [Connection ''a'', Join ''a'' ''ann''])) = []"
proof -
  let ?u = "run (\<lambda>name. 0) 0 [Connection ''a'']"
  let ?s = "run (\<lambda>name. 0) 0 [Connection ''a'', Join ''a'' ''ann'']"
  have a: "player ?u ''a'' = None" by (simp add: run_def createWorld_fields)
  have b: "''a'' \<in> connected ?s \<and> player ?s ''a'' = Some (createPlayer 4 ''ann'')"
    by (simp add: run_def createWorld_fields join_fields eval_nat_numeral)
  have c: "dynamic_bodies ?s = [createPlayer 4 ''ann'']"
    by (simp add: run_def createWorld_fields join_fields eval_nat_numeral)
  from disconnect_unjoined_or_joined[where ?s0.0 = ?u and sk = "''a''" and sh = "\<lambda>name. 0" and ?n0.0 = 0
      and evs = "[Connection ''a'', Join ''a'' ''ann'']" and p = "createPlayer 4 ''ann''"] a b c
  show ?thesis by simp
qed


section \<open>Rounding twice\<close>

text \<open>
  Above \<open>2 ^ 45\<close> the doubles are too far apart for the angle: the angle
  \<open>40000000000000.015625\<close> is a double, it is rounded to \<open>40000000000000.0234375\<close>, and
  that is rounded to \<open>40000000000000.03125\<close>.
\<close>

theorem angle_rounding_counterexample:
  "to_double (2560000000000001 / 64) = Fin (2560000000000001 / 64) \<and>
   div100 (Math_round (times100 (Fin (2560000000000001 / 64)))) = Fin (5120000000000003 / 128) \<and>
   div100 (Math_round (times100 (Fin (5120000000000003 / 128)))) = Fin (1280000000000001 / 32) \<and>
   div100 (Math_round (times100 (div100 (Math_round (times100 (Fin (2560000000000001 / 64))))))) \<noteq>
   div100 (Math_round (times100 (Fin (2560000000000001 / 64))))"
proof -
  have fl: "\<lfloor>(5120000000000002::rat)\<rfloor> = 5120000000000002"
    "\<lfloor>(64000000000000025::rat) / 8\<rfloor> = 8000000000000003"
    "\<lfloor>(128000000000000064::rat) / 25\<rfloor> = 5120000000000002"
    "\<lfloor>(128000000000000075::rat) / 16\<rfloor> = 8000000000000004"
    "\<lfloor>(128000000000000096::rat) / 25\<rfloor> = 5120000000000003"
    "\<lfloor>(8000000000000003::rat) / 2 + 1 / 2\<rfloor> = 4000000000000002"
    "\<lfloor>(8000000000000005::rat) / 2 + 1 / 2\<rfloor> = 4000000000000003"
    by (rule floor_unique; simp)+
  have rhe: "round_half_even (5120000000000002 :: rat) = 5120000000000002"
    "round_half_even (64000000000000025 / 8) = 8000000000000003"
    "round_half_even (128000000000000064 / 25) = 5120000000000003"
    "round_half_even (128000000000000075 / 16) = 8000000000000005"
    "round_half_even (128000000000000096 / 25) = 5120000000000004"
    by (simp_all add: round_half_even_def Let_def fl)
  have a: "to_double (2560000000000001 / 64) = Fin (2560000000000001 / 64)"
    using to_double_eval[of 45 "2560000000000001 / 64" 5120000000000002]
    by (simp add: rhe power_int_minus_divide)
  have b: "to_double (2560000000000001 / 64 * 100) = Fin (8000000000000003 / 2)"
    using to_double_eval[of 51 "2560000000000001 / 64 * 100" 8000000000000003]
    by (simp add: rhe power_int_minus_divide)
  have c: "to_double (4000000000000002 / 100) = Fin (5120000000000003 / 128)"
    using to_double_eval[of 45 "4000000000000002 / 100" 5120000000000003]
    by (simp add: rhe power_int_minus_divide)
  have d: "to_double (5120000000000003 / 128 * 100) = Fin (8000000000000005 / 2)"
    using to_double_eval[of 51 "5120000000000003 / 128 * 100" 8000000000000005]
    by (simp add: rhe power_int_minus_divide)
  have e: "to_double (4000000000000003 / 100) = Fin (1280000000000001 / 32)"
    using to_double_eval[of 45 "4000000000000003 / 100" 5120000000000004]
    by (simp add: rhe power_int_minus_divide)
  have "div100 (Math_round (times100 (Fin (2560000000000001 / 64)))) = Fin (5120000000000003 / 128)"
    using b c fl(6) by (simp add: div100_def times100_def Math_round_def)
  moreover have "div100 (Math_round (times100 (Fin (5120000000000003 / 128)))) = Fin (1280000000000001 / 32)"
    using d e fl(7) by (simp add: div100_def times100_def Math_round_def)
  ultimately show ?thesis using a by simp
qed

text \<open>
  Claim C9, amended. Rounding a coordinate by \<open>Math.round\<close> twice gives what rounding it
  once gives, for every number. Rounding an angle to two decimal places, that is
  multiplying it by 100, rounding by \<open>Math.round\<close> and dividing by 100 in double
  arithmetic, gives the same twice as once for every angle that is not finite or whose
  magnitude is at most \<open>10 ^ 13\<close>.
\<close>

theorem rounding_twice:
  "Math_round (Math_round v) = Math_round v \<and>
   (\<bar>q\<bar> \<le> 10 ^ 13 \<longrightarrow>
      div100 (Math_round (times100 (div100 (Math_round (times100 (Fin q)))))) =
      div100 (Math_round (times100 (Fin q)))) \<and>
   (a \<in> {NaN, PosInf, NegInf} \<longrightarrow>
      div100 (Math_round (times100 (div100 (Math_round (times100 a))))) =
      div100 (Math_round (times100 a)))"
proof -
  have "div100 (Math_round (times100 (div100 (Math_round (times100 a))))) =
        div100 (Math_round (times100 a))" if "a \<in> {NaN, PosInf, NegInf}"
    using that by (auto simp: div100_def times100_def Math_round_def)
  then show ?thesis using round2_idem[of q] by (simp add: Math_round_idem)
qed

theorem rounding_twice_witness:
  "\<bar>314159 / 100000 :: rat\<bar> \<le> 10 ^ 13 \<and>
   div100 (Math_round (times100 (div100 (Math_round (times100 (Fin (314159 / 100000))))))) =
   div100 (Math_round (times100 (Fin (314159 / 100000)))) \<and>
   NaN \<in> {NaN, PosInf, NegInf} \<and>
   div100 (Math_round (times100 (div100 (Math_round (times100 NaN))))) =
   div100 (Math_round (times100 NaN)) \<and>
   Math_round (Math_round (Fin (5 / 2))) = Math_round (Fin (5 / 2))"
proof -
  have h: "\<bar>314159 / 100000 :: rat\<bar> \<le> 10 ^ 13" "NaN \<in> {NaN, PosInf, NegInf}" by simp_all
  from rounding_twice[of "Fin (5 / 2)" "314159 / 100000" NaN] h show ?thesis by blast
qed

end
